theory Spec2Isabelle
  imports Main "HOL-Library.Sublist"
begin

section \<open>Strings\<close>

text \<open>
  A Python \<open>str\<close> is modelled as a \<open>string\<close>; one \<open>char\<close> stands for one character of the
  Python string, so \<open>length\<close> is Python's \<open>len\<close>.
\<close>

definition newline :: char where
  "newline = CHR 0x0A"

definition carriage_return :: char where
  "carriage_return = CHR 0x0D"

definition dquote :: char where
  "dquote = CHR 0x22"

definition squote :: char where
  "squote = CHR 0x27"

text \<open>
  \<open>str.replace(old, new)\<close> for a non-empty \<open>old\<close>: the occurrences of \<open>old\<close> are found from
  left to right and do not overlap.
\<close>

function replace_ne :: "string \<Rightarrow> string \<Rightarrow> string \<Rightarrow> string" where
  "replace_ne old new [] = []"
| "replace_ne old new (x # xs) =
     (if old \<noteq> [] \<and> prefix old (x # xs)
      then new @ replace_ne old new (drop (length old) (x # xs))
      else x # replace_ne old new xs)"
  by pat_completeness auto
termination
  by (relation "measure (\<lambda>(old, new, s). length s)") (auto simp: neq_Nil_conv)

text \<open>With an empty \<open>old\<close>, Python puts \<open>new\<close> before every character and at the end.\<close>

definition py_replace :: "string \<Rightarrow> string \<Rightarrow> string \<Rightarrow> string" where
  "py_replace old new s =
     (if old = [] then new @ concat (map (\<lambda>c. c # new) s) else replace_ne old new s)"

text \<open>\<open>str.split(sep)\<close> for a one-character separator: every separator cuts, empty pieces stay.\<close>

fun split_sep :: "char \<Rightarrow> string \<Rightarrow> string list" where
  "split_sep c [] = [[]]"
| "split_sep c (x # xs) =
     (if x = c then [] # split_sep c xs
      else (case split_sep c xs of
              [] \<Rightarrow> [[x]]
            | w # ws \<Rightarrow> (x # w) # ws))"

section \<open>Record Normalizer\<close>

text \<open>
  \<^verbatim>\<open>
  def format_data(data):
      data = data.replace('\n', ' newlinechar ').replace('\r', ' newlinechar ').replace('""', "'")
      return data
  \<close>
\<close>

definition format_data :: "string \<Rightarrow> string" where
  "format_data data =
     py_replace [dquote, dquote] [squote]
       (py_replace [carriage_return] '' newlinechar ''
         (py_replace [newline] '' newlinechar '' data))"

section \<open>Acceptability Filter\<close>

text \<open>
  \<^verbatim>\<open>
  def acceptable(data):
      if len(data.split(' ')) > 50 or len(data) < 1:
          return False
      elif len(data) > 1000:
          return False
      elif data == '[deleted]':
          return False
      elif data == '[removed]':
          return False
      else:
          return True
  \<close>
\<close>

definition acceptable :: "string \<Rightarrow> bool" where
  "acceptable data =
     (if length (split_sep CHR '' '' data) > 50 \<or> length data < 1 then False
      else if length data > 1000 then False
      else if data = ''[deleted]'' then False
      else if data = ''[removed]'' then False
      else True)"

text \<open>
  The filter as the specification words it, to be compared with \<open>acceptable\<close>: the word count
  is the whitespace-split token count, that is the length of Python's \<open>data.split()\<close>, which
  cuts at runs of whitespace and keeps no empty piece.
\<close>

definition is_whitespace :: "char \<Rightarrow> bool" where
  "is_whitespace c =
     (c \<in> set [CHR 0x09, CHR 0x0A, CHR 0x0B, CHR 0x0C, CHR 0x0D,
                CHR 0x1C, CHR 0x1D, CHR 0x1E, CHR 0x1F, CHR 0x20, CHR 0x85, CHR 0xA0])"

fun split_whitespace :: "string \<Rightarrow> string \<Rightarrow> string list" where
  "split_whitespace cur [] = (if cur = [] then [] else [cur])"
| "split_whitespace cur (x # xs) =
     (if is_whitespace x
      then (if cur = [] then split_whitespace [] xs else cur # split_whitespace [] xs)
      else split_whitespace (cur @ [x]) xs)"

definition acceptable_spec :: "string \<Rightarrow> bool" where
  "acceptable_spec data =
     (length (split_whitespace [] data) \<le> 50 \<and> 1 \<le> length data \<and> length data \<le> 1000
      \<and> data \<noteq> ''[deleted]'' \<and> data \<noteq> ''[removed]'')"

section \<open>The scope of the model\<close>

text \<open>
  SQLite is not code of this repository, and the notebook hands it statement texts that
  it builds with \<open>str.format\<close> from the values of the dump. The model says what SQLite does
  with the texts it understands and says \<open>Beyond\<close> for every other text: a result \<open>Beyond\<close>
  means that the model makes no statement about what the code does from there on.
\<close>

datatype 'a within = Beyond | Within 'a

definition nul :: char where
  "nul = CHR 0x00"

text \<open>
  A value stays inside the double-quoted literal that an insert formats it into when it
  holds no double quote; a \<open>pid\<close> stays inside the single-quoted literal of the two lookups
  when it holds no single quote. sqlite3 refuses a text with a NUL character, or cuts it
  there, depending on its version. An integer literal is stored as an integer when it fits
  in 64 bits, and as a floating point number otherwise.
\<close>

definition plain_text :: "string \<Rightarrow> bool" where
  "plain_text v = (dquote \<notin> set v \<and> nul \<notin> set v)"

definition plain_id :: "string \<Rightarrow> bool" where
  "plain_id v = (squote \<notin> set v \<and> nul \<notin> set v)"

definition int64 :: "int \<Rightarrow> bool" where
  "int64 n = (- (2 ^ 63) < n \<and> n < 2 ^ 63)"

section \<open>Stored pairs and the durable table\<close>

text \<open>
  \<^verbatim>\<open>
  CREATE TABLE IF NOT EXISTS parent_reply(parent_id TEXT PRIMARY KEY, comment_id TEXT UNIQUE,
    parent TEXT, comment TEXT, subreddit TEXT, unix INT, score INT)
  \<close>
  A row of \<open>parent_reply\<close>. The two body columns may be NULL: the notebook's insert without
  a parent leaves \<open>parent\<close> unset, and the schema lets \<open>comment\<close> be NULL as well. The tables
  of the model hold text in the other text columns and integers in the two integer
  columns. The table is the list of its rows in insertion order; it is the committed
  state, which is also all that the cursor can see, since statements are only executed
  inside a flush that commits at once.
\<close>

record row =
  parent_id :: string
  comment_id :: string
  parent :: "string option"
  comment :: "string option"
  subreddit :: string
  unix :: int
  score :: int

type_synonym table = "row list"

datatype py_error = KeyError string | IndexError | TypeError

text \<open>
  The three statements that the notebook builds, each represented by its template and the
  values that \<open>str.format\<close> puts into it; \<open>sql_text\<close> is the text that SQLite receives. The
  template of the replace statement holds eight \<open>?\<close> placeholders and no \<open>{}\<close> field, so
  \<open>.format(...)\<close> returns it unchanged and its text is a constant.
\<close>

datatype stmt =
    Insert_has_parent string string string string string int int
  | Insert_no_parent string string string string int int
  | Update_placeholders

text \<open>\<open>str(n)\<close> for an integer, as \<open>{}\<close> formats it.\<close>

function show_nat :: "nat \<Rightarrow> string" where
  "show_nat n =
     (if n < 10 then [''0123456789'' ! n]
      else show_nat (n div 10) @ [''0123456789'' ! (n mod 10)])"
  by pat_completeness auto
termination
  by (relation "measure id") auto

definition show_int :: "int \<Rightarrow> string" where
  "show_int i = (if i < 0 then CHR ''-'' # show_nat (nat (- i)) else show_nat (nat i))"

definition double_quoted :: "string \<Rightarrow> string" where
  "double_quoted v = [dquote] @ v @ [dquote]"

fun sql_text :: "stmt \<Rightarrow> string" where
  "sql_text (Insert_has_parent pid cid par com sub ux sc) =
     ''INSERT INTO parent_reply (parent_id, comment_id, parent, comment, subreddit, unix, score) VALUES (''
     @ double_quoted pid @ '','' @ double_quoted cid @ '','' @ double_quoted par @ '',''
     @ double_quoted com @ '','' @ double_quoted sub @ '','' @ show_int ux @ '','' @ show_int sc
     @ '');''"
| "sql_text (Insert_no_parent pid cid com sub ux sc) =
     ''INSERT INTO parent_reply (parent_id, comment_id, comment, subreddit, unix, score) VALUES (''
     @ double_quoted pid @ '','' @ double_quoted cid @ '','' @ double_quoted com @ '',''
     @ double_quoted sub @ '','' @ show_int ux @ '','' @ show_int sc @ '');''"
| "sql_text Update_placeholders =
     ''UPDATE parent_reply SET parent_id = ?, comment_id = ?, parent = ?, comment = ?, subreddit = ?, unix = ?, score = ? WHERE parent_id =?;''"

text \<open>
  An insert of values that stay inside their literals: it violates \<open>PRIMARY KEY\<close> when the
  \<open>parent_id\<close> is already stored and \<open>UNIQUE\<close> when the \<open>comment_id\<close> is, and sqlite3 raises
  (\<open>None\<close>); otherwise the row is added.
\<close>

definition insert_row :: "table \<Rightarrow> row \<Rightarrow> table option" where
  "insert_row t r =
     (if parent_id r \<in> set (map parent_id t) \<or> comment_id r \<in> set (map comment_id t)
      then None
      else Some (t @ [r]))"

text \<open>
  A comment that leaves its literal. The one shape that the model understands is a
  comment that ends its own literal, supplies the remaining values itself, adds an upsert
  clause on the key and comments out the rest of the template:
  \<^verbatim>\<open>
  c0","s1",d1,d2) ON CONFLICT(parent_id) DO UPDATE SET comment='new' --
  \<close>
  where \<open>c0\<close> and \<open>s1\<close> hold no double quote, \<open>d1\<close> and \<open>d2\<close> are digits and \<open>new\<close> holds no
  quote. \<open>parse_upsert\<close> returns \<open>c0\<close>, \<open>s1\<close>, the two numbers and \<open>new\<close>.
\<close>

definition strip_prefix :: "string \<Rightarrow> string \<Rightarrow> string option" where
  "strip_prefix p s = (if prefix p s then Some (drop (length p) s) else None)"

definition is_digit :: "char \<Rightarrow> bool" where
  "is_digit c = (c \<in> set ''0123456789'')"

definition digit_value :: "char \<Rightarrow> nat" where
  "digit_value c = length (takeWhile (\<lambda>d. d \<noteq> c) ''0123456789'')"

definition digits_value :: "string \<Rightarrow> nat" where
  "digits_value ds = foldl (\<lambda>n c. 10 * n + digit_value c) 0 ds"

definition upsert_clause :: string where
  "upsert_clause = '') ON CONFLICT(parent_id) DO UPDATE SET comment='' @ [squote]"

definition parse_upsert :: "string \<Rightarrow> (string \<times> string \<times> int \<times> int \<times> string) option" where
  "parse_upsert com =
     (let c0 = takeWhile (\<lambda>x. x \<noteq> dquote) com;
          r1 = dropWhile (\<lambda>x. x \<noteq> dquote) com in
      (case strip_prefix ([dquote] @ '','' @ [dquote]) r1 of
         None \<Rightarrow> None
       | Some r2 \<Rightarrow>
      (let s1 = takeWhile (\<lambda>x. x \<noteq> dquote) r2;
           r3 = dropWhile (\<lambda>x. x \<noteq> dquote) r2 in
      (case strip_prefix ([dquote] @ '','') r3 of
         None \<Rightarrow> None
       | Some r4 \<Rightarrow>
      (let d1 = takeWhile is_digit r4;
           r5 = dropWhile is_digit r4 in
      (case strip_prefix '','' r5 of
         None \<Rightarrow> None
       | Some r6 \<Rightarrow>
      (let d2 = takeWhile is_digit r6;
           r7 = dropWhile is_digit r6 in
      (case strip_prefix upsert_clause r7 of
         None \<Rightarrow> None
       | Some r8 \<Rightarrow>
      (let new = takeWhile (\<lambda>x. x \<noteq> squote) r8;
           r9 = dropWhile (\<lambda>x. x \<noteq> squote) r8 in
       if r9 = [squote] @ '' --'' \<and> d1 \<noteq> [] \<and> d2 \<noteq> []
          \<and> nul \<notin> set c0 \<and> nul \<notin> set s1 \<and> plain_text new
          \<and> int64 (int (digits_value d1)) \<and> int64 (int (digits_value d2))
       then Some (c0, s1, int (digits_value d1), int (digits_value d2), new)
       else None)))))))))"

text \<open>
  An insert with an upsert clause on \<open>parent_id\<close>: when the key is stored already, the
  stored row gets the new comment instead; otherwise the row is inserted as usual. The
  model does not say what happens when the key and the \<open>comment_id\<close> both collide.
\<close>

definition upsert :: "table \<Rightarrow> row \<Rightarrow> string \<Rightarrow> table option within" where
  "upsert t r new =
     (if parent_id r \<in> set (map parent_id t)
      then (if comment_id r \<in> set (map comment_id t) then Beyond
            else Within (Some (map (\<lambda>x. if parent_id x = parent_id r
                                            then x\<lparr>comment := Some new\<rparr> else x) t)))
      else Within (insert_row t r))"

text \<open>
  \<open>c.execute(s)\<close> for an insert. The values other than the comment have to stay inside
  their literals. The rest of the template after an upsert comment is commented out up to
  the next line break, so the subreddit must not hold one.
\<close>

definition execute_insert ::
  "table \<Rightarrow> string \<Rightarrow> string \<Rightarrow> string option \<Rightarrow> string \<Rightarrow> string \<Rightarrow> int \<Rightarrow> int
     \<Rightarrow> table option within" where
  "execute_insert t pid cid par com sub ux sc =
     (if plain_text pid \<and> plain_text cid \<and> (case par of None \<Rightarrow> True | Some p \<Rightarrow> plain_text p)
         \<and> plain_text sub \<and> int64 ux \<and> int64 sc
      then (if plain_text com
            then Within (insert_row t \<lparr>parent_id = pid, comment_id = cid, parent = par,
                                        comment = Some com, subreddit = sub, unix = ux, score = sc\<rparr>)
            else (case parse_upsert com of
                    None \<Rightarrow> Beyond
                  | Some (c0, s1, u1, n1, new) \<Rightarrow>
                      if newline \<in> set sub then Beyond
                      else upsert t \<lparr>parent_id = pid, comment_id = cid, parent = par,
                                       comment = Some c0, subreddit = s1, unix = u1, score = n1\<rparr> new))
      else Beyond)"

text \<open>
  \<open>c.execute(s)\<close>: \<open>Within None\<close> when sqlite3 raises. The replace statement is executed
  without bindings for its placeholders, which sqlite3 refuses.
\<close>

fun execute :: "table \<Rightarrow> stmt \<Rightarrow> table option within" where
  "execute t (Insert_has_parent pid cid par com sub ux sc) =
     execute_insert t pid cid (Some par) com sub ux sc"
| "execute t (Insert_no_parent pid cid com sub ux sc) =
     execute_insert t pid cid None com sub ux sc"
| "execute t Update_placeholders = Within None"

text \<open>
  \<^verbatim>\<open>
  def find_parent(pid):
      try:
          sql = "SELECT comment FROM parent_reply WHERE comment_id = '{}' LIMIT 1".format(pid)
          c.execute(sql)
          result = c.fetchone()
          if result != None:
              return result[0]
          else:
              return False
      except Exception as e:
          return False
  \<close>
  \<open>None\<close> stands for the \<open>False\<close> and for the \<open>None\<close> of a NULL column that the Python
  returns, which its callers do not tell apart; \<open>find_existing_score\<close> is the same query on
  \<open>parent_id\<close>, returning the score. A lookup changes nothing; what it returns for a \<open>pid\<close>
  that leaves its literal is beyond the model.
\<close>

definition find_parent :: "table \<Rightarrow> string \<Rightarrow> string option within" where
  "find_parent t pid =
     (if plain_id pid
      then Within (case find (\<lambda>r. comment_id r = pid) t of None \<Rightarrow> None | Some r \<Rightarrow> comment r)
      else Beyond)"

definition find_existing_score :: "table \<Rightarrow> string \<Rightarrow> int option within" where
  "find_existing_score t pid =
     (if plain_id pid
      then Within (map_option score (find (\<lambda>r. parent_id r = pid) t))
      else Beyond)"

section \<open>Transactional Store Writer\<close>

record ingest_state =
  table :: table
  sql_transaction :: "stmt list"
  row_counter :: nat
  paired_rows :: nat
  progress :: "(nat \<times> nat) list"

text \<open>
  \<^verbatim>\<open>
  def transaction_bldr(sql):
      global sql_transaction
      sql_transaction.append(sql)
      if len(sql_transaction) > 1000:
          c.execute('BEGIN TRANSACTION')
          for s in sql_transaction:
              try:
                  c.execute(s)
              except:
                  pass
          connection.commit()
          sql_transaction = []
  \<close>
\<close>

definition execute_or_pass :: "table \<Rightarrow> stmt \<Rightarrow> table within" where
  "execute_or_pass t s =
     (case execute t s of
        Beyond \<Rightarrow> Beyond
      | Within None \<Rightarrow> Within t
      | Within (Some t') \<Rightarrow> Within t')"

fun run_transaction :: "table \<Rightarrow> stmt list \<Rightarrow> table within" where
  "run_transaction t [] = Within t"
| "run_transaction t (s # ss) =
     (case execute_or_pass t s of
        Beyond \<Rightarrow> Beyond
      | Within t' \<Rightarrow> run_transaction t' ss)"

definition transaction_bldr :: "stmt \<Rightarrow> ingest_state \<Rightarrow> ingest_state within" where
  "transaction_bldr sql st =
     (let buf = sql_transaction st @ [sql] in
      if length buf > 1000
      then (case run_transaction (table st) buf of
              Beyond \<Rightarrow> Beyond
            | Within t' \<Rightarrow> Within (st\<lparr>table := t', sql_transaction := []\<rparr>))
      else Within (st\<lparr>sql_transaction := buf\<rparr>))"

text \<open>
  \<open>sql_insert_replace_comment\<close>, \<open>sql_insert_has_parent\<close> and \<open>sql_insert_no_parent\<close> format
  their statement and hand it to \<open>transaction_bldr\<close>. The timestamp is an integer here, so
  \<open>int(created_utc)\<close> is the identity and the \<open>except\<close> branch of the three is never taken.
  \<open>sql_insert_no_parent\<close> names its fifth parameter \<open>time\<close> and formats the global
  \<open>created_utc\<close> of the loop, which holds the timestamp of the current record. The replace
  template has no field for its arguments, so they are never looked at.
\<close>

definition sql_insert_replace_comment ::
  "string \<Rightarrow> string \<Rightarrow> string option within \<Rightarrow> string \<Rightarrow> string \<Rightarrow> int \<Rightarrow> int
     \<Rightarrow> ingest_state \<Rightarrow> ingest_state within" where
  "sql_insert_replace_comment cid pid par com sub created_utc sc st =
     transaction_bldr Update_placeholders st"

definition sql_insert_has_parent ::
  "string \<Rightarrow> string \<Rightarrow> string \<Rightarrow> string \<Rightarrow> string \<Rightarrow> int \<Rightarrow> int
     \<Rightarrow> ingest_state \<Rightarrow> ingest_state within" where
  "sql_insert_has_parent cid pid par com sub created_utc sc st =
     transaction_bldr (Insert_has_parent pid cid par com sub created_utc sc) st"

definition sql_insert_no_parent ::
  "string \<Rightarrow> string \<Rightarrow> string \<Rightarrow> string \<Rightarrow> int \<Rightarrow> int
     \<Rightarrow> ingest_state \<Rightarrow> ingest_state within" where
  "sql_insert_no_parent cid pid com sub created_utc sc st =
     transaction_bldr (Insert_no_parent pid cid com sub created_utc sc) st"

section \<open>Ingest Driver\<close>

text \<open>
  One parsed line of the dump: the object that \<open>json.loads\<close> returns, restricted to the
  six keys that the loop reads. A key that the object lacks is \<open>None\<close>; a key that is
  present holds a value of the type that the dump gives it.
\<close>

record json_row =
  j_parent_id :: "string option"
  j_body :: "string option"
  j_created_utc :: "int option"
  j_score :: "int option"
  j_name :: "string option"
  j_subreddit :: "string option"

text \<open>
  The selection block of the loop, from \<open>if score >= 2:\<close> on. Python's truth test of
  \<open>existing_comment_score\<close> fails for \<open>False\<close> and for a stored score of \<open>0\<close>; the one of
  \<open>parent_data\<close> fails for \<open>False\<close>, for a NULL and for an empty stored comment. What
  \<open>find_parent\<close> returned is looked at in the insert branch only.
  \<^verbatim>\<open>
  if score >= 2:
      existing_comment_score = find_existing_score(parent_id)
      if existing_comment_score:
          if score > existing_comment_score:
              if acceptable(body):
                  sql_insert_replace_comment(comment_id,parent_id,parent_data,body,subreddit,created_utc,score)
      else:
          if acceptable(body):
              if parent_data:
                  sql_insert_has_parent(comment_id,parent_id,parent_data,body,subreddit,created_utc,score)
                  paired_rows += 1
              else:
                  sql_insert_no_parent(comment_id,parent_id,body,subreddit,created_utc,score)
  \<close>
\<close>

definition determine_insert ::
  "string \<Rightarrow> string \<Rightarrow> string option within \<Rightarrow> string \<Rightarrow> string \<Rightarrow> int \<Rightarrow> int
     \<Rightarrow> ingest_state \<Rightarrow> ingest_state within" where
  "determine_insert cid pid parent_data body sub created_utc sc st =
     (if sc \<ge> 2 then
        (let no_existing =
               (if acceptable body then
                  (case parent_data of
                     Beyond \<Rightarrow> Beyond
                   | Within None \<Rightarrow> sql_insert_no_parent cid pid body sub created_utc sc st
                   | Within (Some par) \<Rightarrow>
                       if par \<noteq> [] then
                         (case sql_insert_has_parent cid pid par body sub created_utc sc st of
                            Beyond \<Rightarrow> Beyond
                          | Within st' \<Rightarrow> Within (st'\<lparr>paired_rows := paired_rows st' + 1\<rparr>))
                       else sql_insert_no_parent cid pid body sub created_utc sc st)
                else Within st)
         in case find_existing_score (table st) pid of
              Beyond \<Rightarrow> Beyond
            | Within None \<Rightarrow> no_existing
            | Within (Some existing_comment_score) \<Rightarrow>
                if existing_comment_score \<noteq> 0 then
                  (if sc > existing_comment_score then
                     (if acceptable body
                      then sql_insert_replace_comment cid pid parent_data body sub created_utc sc st
                      else Within st)
                   else Within st)
                else no_existing)
      else Within st)"

text \<open>
  \<^verbatim>\<open>
  if row_counter % 100000 == 0:
      print('Total Rows Read: {}, Paired Rows: {}, Time: {}'.format(row_counter, paired_rows, ...))
  \<close>
\<close>

definition report_progress :: "ingest_state \<Rightarrow> ingest_state" where
  "report_progress st =
     (if row_counter st mod 100000 = 0
      then st\<lparr>progress := progress st @ [(row_counter st, paired_rows st)]\<rparr>
      else st)"

text \<open>
  The body of \<open>for row in f\<close>. A subscript on a key that the object lacks raises
  \<open>KeyError\<close>; nothing in the loop catches it, so it ends the run. The result carries the
  exception, if any, and the state that the globals are left in.
  \<^verbatim>\<open>
  row_counter += 1
  row = json.loads(row)
  parent_id = row['parent_id']
  body = format_data(row['body'])
  created_utc = row['created_utc']
  score = row['score']
  comment_id = row['name']
  subreddit = row['subreddit']
  parent_data = find_parent(parent_id)
  \<close>
\<close>

definition process_row ::
  "ingest_state \<Rightarrow> json_row \<Rightarrow> (py_error option \<times> ingest_state) within" where
  "process_row st0 r =
     (let st = st0\<lparr>row_counter := row_counter st0 + 1\<rparr> in
      (case j_parent_id r of None \<Rightarrow> Within (Some (KeyError ''parent_id''), st) | Some pid \<Rightarrow>
      (case j_body r of None \<Rightarrow> Within (Some (KeyError ''body''), st) | Some raw \<Rightarrow>
      (case j_created_utc r of None \<Rightarrow> Within (Some (KeyError ''created_utc''), st) | Some created_utc \<Rightarrow>
      (case j_score r of None \<Rightarrow> Within (Some (KeyError ''score''), st) | Some sc \<Rightarrow>
      (case j_name r of None \<Rightarrow> Within (Some (KeyError ''name''), st) | Some cid \<Rightarrow>
      (case j_subreddit r of None \<Rightarrow> Within (Some (KeyError ''subreddit''), st) | Some sub \<Rightarrow>
      (case determine_insert cid pid (find_parent (table st) pid) (format_data raw)
              sub created_utc sc st of
         Beyond \<Rightarrow> Beyond
       | Within st' \<Rightarrow> Within (None, report_progress st')))))))))"

fun ingest :: "ingest_state \<Rightarrow> json_row list \<Rightarrow> (py_error option \<times> ingest_state) within" where
  "ingest st [] = Within (None, st)"
| "ingest st (r # rs) =
     (case process_row st r of
        Beyond \<Rightarrow> Beyond
      | Within (Some e, st') \<Rightarrow> Within (Some e, st')
      | Within (None, st') \<Rightarrow> ingest st' rs)"

text \<open>The run starts with the counters at zero and an empty buffer, on the table it finds.\<close>

definition initial_state :: "table \<Rightarrow> ingest_state" where
  "initial_state t =
     \<lparr>table = t, sql_transaction = [], row_counter = 0, paired_rows = 0, progress = []\<rparr>"

section \<open>Corpus Exporter\<close>

text \<open>
  The locals of the export cell and the four files, each file as the text that it holds;
  \<open>f.write\<close> appends to it. \<open>printed\<close> collects the progress numbers.
\<close>

record export_state =
  last_unix :: int
  cur_length :: nat
  counter :: nat
  test_done :: bool
  test_from :: string
  test_to :: string
  train_from :: string
  train_to :: string
  printed :: "nat list"

text \<open>
  \<^verbatim>\<open>
  df = pd.read_sql("SELECT * FROM parent_reply WHERE unix > {} AND parent NOT NULL AND score > 0
                    ORDER BY unix ASC LIMIT {}".format(last_unix, limit), connection)
  \<close>
  Rows with equal timestamps are returned in table order.
\<close>

definition read_sql :: "table \<Rightarrow> int \<Rightarrow> nat \<Rightarrow> row list" where
  "read_sql t lu limit =
     take limit (sort_key unix (filter (\<lambda>r. unix r > lu \<and> parent r \<noteq> None \<and> score r > 0) t))"

text \<open>
  \<open>for content in df[...].values: f.write(content+'\n')\<close>: on a NULL, which pandas hands
  over as \<open>None\<close>, the concatenation raises \<open>TypeError\<close>. The training replies are written
  as \<open>str(content)+'\n'\<close> instead, which turns \<open>None\<close> into the text \<open>None\<close>.
\<close>

fun write_contents :: "string option list \<Rightarrow> string \<Rightarrow> py_error + string" where
  "write_contents [] f = Inr f"
| "write_contents (None # cs) f = Inl TypeError"
| "write_contents (Some content # cs) f = write_contents cs (f @ content @ [newline])"

definition py_str :: "string option \<Rightarrow> string" where
  "py_str content = (case content of None \<Rightarrow> ''None'' | Some s \<Rightarrow> s)"

fun write_str_contents :: "string option list \<Rightarrow> string \<Rightarrow> string" where
  "write_str_contents [] f = f"
| "write_str_contents (content # cs) f = write_str_contents cs (f @ py_str content @ [newline])"

text \<open>
  One pass through the body of \<open>while cur_length == limit\<close>. \<open>df.tail(1)['unix'].values[0]\<close>
  raises \<open>IndexError\<close> on an empty page.
  \<^verbatim>\<open>
  last_unix = df.tail(1)['unix'].values[0]
  cur_length = len(df)
  if not test_done:
      with open('../data/test.from', 'a', encoding='utf8') as f:
          for content in df['parent'].values:
              f.write(content+'\n')
      with open('../data/test.to', 'a', encoding='utf8') as f:
          for content in df['comment'].values:
              f.write(content+'\n')
      test_done = True
  else:
      with open('../data/train.from','a', encoding='utf8') as f:
          for content in df['parent'].values:
              f.write(content+'\n')
      with open('../data/train.to','a', encoding='utf8') as f:
          for content in df['comment'].values:
              f.write(str(content)+'\n')
  counter += 1
  if counter % 20 == 0:
      print(counter*limit,'rows completed so far')
  \<close>
\<close>

definition write_page :: "row list \<Rightarrow> export_state \<Rightarrow> py_error + export_state" where
  "write_page df st =
     (if \<not> test_done st then
        (case write_contents (map parent df) (test_from st) of
           Inl e \<Rightarrow> Inl e
         | Inr f \<Rightarrow>
             (case write_contents (map comment df) (test_to st) of
                Inl e \<Rightarrow> Inl e
              | Inr g \<Rightarrow> Inr (st\<lparr>test_from := f, test_to := g, test_done := True\<rparr>)))
      else
        (case write_contents (map parent df) (train_from st) of
           Inl e \<Rightarrow> Inl e
         | Inr f \<Rightarrow>
             Inr (st\<lparr>train_from := f,
                     train_to := write_str_contents (map comment df) (train_to st)\<rparr>)))"

definition count_page :: "nat \<Rightarrow> export_state \<Rightarrow> export_state" where
  "count_page limit st =
     (let st' = st\<lparr>counter := counter st + 1\<rparr> in
      if counter st' mod 20 = 0
      then st'\<lparr>printed := printed st' @ [counter st' * limit]\<rparr>
      else st')"

definition export_step :: "nat \<Rightarrow> table \<Rightarrow> export_state \<Rightarrow> py_error + export_state" where
  "export_step limit t st =
     (let df = read_sql t (last_unix st) limit in
      if df = [] then Inl IndexError
      else
        (case write_page df (st\<lparr>last_unix := unix (last df), cur_length := length df\<rparr>) of
           Inl e \<Rightarrow> Inl e
         | Inr st' \<Rightarrow> Inr (count_page limit st')))"

text \<open>
  \<open>while cur_length == limit\<close>: the loop. Every pass that does not raise moves \<open>last_unix\<close>
  to the timestamp of a stored row beyond it, so fewer rows stay beyond it each time.
\<close>

function export_loop :: "nat \<Rightarrow> table \<Rightarrow> export_state \<Rightarrow> py_error + export_state" where
  "export_loop limit t st =
     (if cur_length st = limit then
        (case export_step limit t st of
           Inl e \<Rightarrow> Inl e
         | Inr st' \<Rightarrow> export_loop limit t st')
      else Inr st)"
  by pat_completeness auto
termination
proof (relation "measure (\<lambda>(limit, t, st). length (filter (\<lambda>r. last_unix st < unix r) t))")
  show "wf (measure (\<lambda>(limit, t, st). length (filter (\<lambda>r. last_unix st < unix r) t)))"
    by simp
next
  fix limit :: nat and t :: table and st st' :: export_state
  assume "cur_length st = limit" and step: "export_step limit t st = Inr st'"
  let ?df = "read_sql t (last_unix st) limit"
  from step have ne: "?df \<noteq> []"
    by (auto simp: export_step_def Let_def split: if_splits)
  from step ne obtain st1 where
    w: "write_page ?df (st\<lparr>last_unix := unix (last ?df), cur_length := length ?df\<rparr>) = Inr st1"
    and st': "st' = count_page limit st1"
    by (auto simp: export_step_def Let_def split: sum.splits)
  from w have "last_unix st1 = unix (last ?df)"
    by (auto simp: write_page_def split: if_splits sum.splits)
  then have lu: "last_unix st' = unix (last ?df)"
    by (simp add: st' count_page_def Let_def)
  have "last ?df \<in> set ?df"
    using ne by simp
  then have "last ?df
               \<in> set (sort_key unix
                        (filter (\<lambda>r. unix r > last_unix st \<and> parent r \<noteq> None \<and> score r > 0) t))"
    unfolding read_sql_def by (rule in_set_takeD)
  then have r: "last ?df \<in> set t" "last_unix st < unix (last ?df)"
    by simp_all
  have "filter (\<lambda>x. last_unix st' < unix x) t
          = filter (\<lambda>x. last_unix st' < unix x) (filter (\<lambda>x. last_unix st < unix x) t)"
    using r lu by (auto intro: filter_cong)
  moreover have "length (filter (\<lambda>x. last_unix st' < unix x) (filter (\<lambda>x. last_unix st < unix x) t))
                   < length (filter (\<lambda>x. last_unix st < unix x) t)"
    by (rule length_filter_less [of "last ?df"]) (use r lu in auto)
  ultimately show "((limit, t, st'), (limit, t, st))
                     \<in> measure (\<lambda>(limit, t, st). length (filter (\<lambda>r. last_unix st < unix r) t))"
    by simp
qed

declare export_loop.simps [simp del]

text \<open>
  The export cell for one timeframe: \<open>limit = 5000\<close>, \<open>last_unix = 0\<close>, \<open>cur_length = limit\<close>,
  \<open>counter = 0\<close>, \<open>test_done = False\<close>. The files are opened for appending, so they start
  with whatever they hold.
\<close>

definition export_init ::
  "nat \<Rightarrow> string \<Rightarrow> string \<Rightarrow> string \<Rightarrow> string \<Rightarrow> export_state" where
  "export_init limit f1 f2 f3 f4 =
     \<lparr>last_unix = 0, cur_length = limit, counter = 0, test_done = False,
      test_from = f1, test_to = f2, train_from = f3, train_to = f4, printed = []\<rparr>"

definition export_corpus ::
  "table \<Rightarrow> string \<Rightarrow> string \<Rightarrow> string \<Rightarrow> string \<Rightarrow> py_error + export_state" where
  "export_corpus t f1 f2 f3 f4 = export_loop 5000 t (export_init 5000 f1 f2 f3 f4)"

section \<open>Scenarios\<close>

text \<open>
  The two replies of the specification's end-to-end scenarios, a third reply whose score
  is below the threshold, and the row that the second reply becomes once it is stored.
\<close>

definition scenario_hello :: json_row where
  "scenario_hello =
     \<lparr>j_parent_id = Some ''t1_a'', j_body = Some ''hello'', j_created_utc = Some 1325376000,
      j_score = Some 5, j_name = Some ''t1_b'', j_subreddit = Some ''AskReddit''\<rparr>"

definition scenario_hi :: json_row where
  "scenario_hi =
     \<lparr>j_parent_id = Some ''t1_a'', j_body = Some ''hi'', j_created_utc = Some 1325376001,
      j_score = Some 3, j_name = Some ''t1_c'', j_subreddit = Some ''AskReddit''\<rparr>"

definition scenario_low :: json_row where
  "scenario_low =
     \<lparr>j_parent_id = Some ''t1_a'', j_body = Some ''meh'', j_created_utc = Some 1325376002,
      j_score = Some 1, j_name = Some ''t1_d'', j_subreddit = Some ''AskReddit''\<rparr>"

definition stored_hi :: row where
  "stored_hi =
     \<lparr>parent_id = ''t1_a'', comment_id = ''t1_c'', parent = None, comment = Some ''hi'',
      subreddit = ''AskReddit'', unix = 1325376001, score = 3\<rparr>"


definition upsert_body :: string where
  "upsert_body =
     ''x'' @ [dquote] @ '','' @ [dquote] @ ''s'' @ [dquote] @ '',1,9'' @ upsert_clause
     @ ''pwned'' @ [squote] @ '' --''"


text \<open>
  Two stored pairs for the exporter, a reply to \<open>stored_hi\<close> and a reply to that reply;
  \<open>stored_hi\<close> itself has no parent and is not exported. A third pair has a line break in
  its parent body.
\<close>

definition pair_one :: row where
  "pair_one = \<lparr>parent_id = ''t1_c'', comment_id = ''t1_f'', parent = Some ''hi'',
     comment = Some ''hey there'', subreddit = ''AskReddit'', unix = 1325376010, score = 5\<rparr>"

definition pair_two :: row where
  "pair_two = \<lparr>parent_id = ''t1_f'', comment_id = ''t1_g'', parent = Some ''hey there'',
     comment = Some ''good to see you'', subreddit = ''AskReddit'', unix = 1325376020, score = 4\<rparr>"

definition pair_break :: row where
  "pair_break = \<lparr>parent_id = ''t1_h'', comment_id = ''t1_i'', parent = Some (''so'' @ [newline] @ ''long''),
     comment = Some ''bye'', subreddit = ''AskReddit'', unix = 1325376030, score = 2\<rparr>"

text \<open>
  The exporter's state after the first and after the second page of \<open>pair_one\<close> and
  \<open>pair_two\<close>, read with a page size of one.
\<close>

definition export_page_one :: export_state where
  "export_page_one =
     \<lparr>last_unix = 1325376010, cur_length = 1, counter = 1, test_done = True,
      test_from = ''hi'' @ [newline], test_to = ''hey there'' @ [newline],
      train_from = [], train_to = [], printed = []\<rparr>"

definition export_page_two :: export_state where
  "export_page_two =
     \<lparr>last_unix = 1325376020, cur_length = 1, counter = 2, test_done = True,
      test_from = ''hi'' @ [newline], test_to = ''hey there'' @ [newline],
      train_from = ''hey there'' @ [newline], train_to = ''good to see you'' @ [newline],
      printed = []\<rparr>"

section \<open>Notions used in the properties\<close>

text \<open>\<open>doubled s\<close>: two double-quote characters stand side by side somewhere in \<open>s\<close>.\<close>

fun doubled :: "string \<Rightarrow> bool" where
  "doubled (a # b # xs) = ((a = dquote \<and> b = dquote) \<or> doubled (b # xs))"
| "doubled xs = False"

text \<open>The parent that an insert names first among its values; the replace statement names none.\<close>

fun stmt_parent_id :: "stmt \<Rightarrow> string option" where
  "stmt_parent_id (Insert_has_parent pid cid par com sub ux sc) = Some pid"
| "stmt_parent_id (Insert_no_parent pid cid com sub ux sc) = Some pid"
| "stmt_parent_id Update_placeholders = None"

text \<open>
  The required keys that a parsed line lacks, in the order in which the loop reads them.
\<close>

definition missing_keys :: "json_row \<Rightarrow> string list" where
  "missing_keys r =
     (if j_parent_id r = None then [''parent_id''] else [])
     @ (if j_body r = None then [''body''] else [])
     @ (if j_created_utc r = None then [''created_utc''] else [])
     @ (if j_score r = None then [''score''] else [])
     @ (if j_name r = None then [''name''] else [])
     @ (if j_subreddit r = None then [''subreddit''] else [])"

text \<open>
  \<open>parent_absent pid st\<close>: no stored row is keyed by \<open>pid\<close> and no pending statement names
  \<open>pid\<close> as its parent.
\<close>

definition parent_absent :: "string \<Rightarrow> ingest_state \<Rightarrow> bool" where
  "parent_absent pid st =
     (pid \<notin> set (map parent_id (table st))
      \<and> Some pid \<notin> set (map stmt_parent_id (sql_transaction st)))"

text \<open>
  A statement all of whose values stay inside their literals, with numbers that fit in 64
  bits; the replace statement has no values.
\<close>

fun plain_stmt :: "stmt \<Rightarrow> bool" where
  "plain_stmt (Insert_has_parent pid cid par com sub ux sc) =
     (plain_text pid \<and> plain_text cid \<and> plain_text par \<and> plain_text com \<and> plain_text sub
      \<and> int64 ux \<and> int64 sc)"
| "plain_stmt (Insert_no_parent pid cid com sub ux sc) =
     (plain_text pid \<and> plain_text cid \<and> plain_text com \<and> plain_text sub \<and> int64 ux \<and> int64 sc)"
| "plain_stmt Update_placeholders = True"

text \<open>
  A parsed line all of whose values stay inside the literals that the loop formats them
  into: the \<open>parent_id\<close> inside the single-quoted literal of the lookups and the
  double-quoted one of the inserts, the other texts, the body as normalised, inside the
  double-quoted literals of the inserts.
\<close>

definition plain_value :: "(string \<Rightarrow> bool) \<Rightarrow> string option \<Rightarrow> bool" where
  "plain_value p v = (case v of None \<Rightarrow> True | Some s \<Rightarrow> p s)"

definition plain_number :: "int option \<Rightarrow> bool" where
  "plain_number v = (case v of None \<Rightarrow> True | Some n \<Rightarrow> int64 n)"

definition plain_record :: "json_row \<Rightarrow> bool" where
  "plain_record r =
     (plain_value (\<lambda>s. plain_id s \<and> plain_text s) (j_parent_id r)
      \<and> plain_value (\<lambda>s. plain_text (format_data s)) (j_body r)
      \<and> plain_number (j_created_utc r)
      \<and> plain_number (j_score r)
      \<and> plain_value plain_text (j_name r)
      \<and> plain_value plain_text (j_subreddit r))"

text \<open>
  A state whose stored comments, which later inserts format as parent bodies, and whose
  pending statements stay inside their literals.
\<close>

definition plain_state :: "ingest_state \<Rightarrow> bool" where
  "plain_state st =
     (list_all (\<lambda>x. plain_value plain_text (comment x)) (table st)
      \<and> list_all plain_stmt (sql_transaction st))"

text \<open>
  The lines of a text: the pieces between its line breaks, without the empty piece after
  a final line break. A body is a single line when it holds no line break and no carriage
  return.
\<close>

definition file_lines :: "string \<Rightarrow> string list" where
  "file_lines s = (let ps = split_sep newline s in if last ps = [] then butlast ps else ps)"

definition single_line :: "string \<Rightarrow> bool" where
  "single_line s = (newline \<notin> set s \<and> carriage_return \<notin> set s)"

text \<open>A stored pair whose parent body and whose comment are both present and single lines.\<close>

definition one_line_pair :: "row \<Rightarrow> bool" where
  "one_line_pair x =
     (case parent x of
        None \<Rightarrow> False
      | Some p \<Rightarrow> (case comment x of None \<Rightarrow> False | Some c \<Rightarrow> single_line p \<and> single_line c))"

text \<open>
  \<open>page_written df prompt prompt' reply reply'\<close>: the page \<open>df\<close> has been appended to both
  files, and the appended texts hold one line per row of the page, in the order of the
  page: the lines appended to the prompt file are the parent bodies of the rows of the
  page, and the lines appended to the reply file are their comments, so the \<open>n\<close>th line
  appended to the prompt file is the parent body of the row whose comment is the \<open>n\<close>th
  line appended to the reply file.
\<close>

definition page_written :: "row list \<Rightarrow> string \<Rightarrow> string \<Rightarrow> string \<Rightarrow> string \<Rightarrow> bool" where
  "page_written df prompt prompt' reply reply' =
     (prompt' = prompt @ drop (length prompt) prompt'
      \<and> reply' = reply @ drop (length reply) reply'
      \<and> map Some (file_lines (drop (length prompt) prompt')) = map parent df
      \<and> map Some (file_lines (drop (length reply) reply')) = map comment df)"

section \<open>Normalisation is idempotent\<close>

lemma set_replace_ne: "set (replace_ne old new s) \<subseteq> set s \<union> set new"
proof (induction old new s rule: replace_ne.induct)
  case (1 old new)
  then show ?case by simp
next
  case (2 old new x xs)
  show ?case
  proof (cases "old \<noteq> [] \<and> prefix old (x # xs)")
    case True
    have "set (drop (length old) (x # xs)) \<subseteq> set (x # xs)"
      by (rule set_drop_subset)
    with 2(1) True show ?thesis by auto
  next
    case False
    with 2(2) show ?thesis by auto
  qed
qed

lemma replace_ne_char_absent: "c \<notin> set s \<Longrightarrow> replace_ne [c] new s = s"
  by (induction s) auto

lemma replace_ne_char_removed: "c \<notin> set new \<Longrightarrow> c \<notin> set (replace_ne [c] new s)"
  by (induction s) auto

lemma doubled_Cons: "doubled (a # t) = ((a = dquote \<and> t \<noteq> [] \<and> hd t = dquote) \<or> doubled t)"
  by (cases t) auto

lemma replace_ne_not_doubled: "\<not> doubled s \<Longrightarrow> replace_ne [dquote, dquote] new s = s"
  by (induction s rule: doubled.induct) auto

lemma replace_ne_head:
  "\<not> prefix [dquote, dquote] (dquote # xs) \<Longrightarrow>
   replace_ne [dquote, dquote] [squote] xs = [] \<or> hd (replace_ne [dquote, dquote] [squote] xs) \<noteq> dquote"
  by (cases xs) auto

lemma replace_ne_undoubled: "\<not> doubled (replace_ne [dquote, dquote] [squote] s)"
proof (induction "[dquote, dquote]" "[squote]" s rule: replace_ne.induct)
  case 1
  then show ?case by simp
next
  case (2 x xs)
  show ?case
  proof (cases "prefix [dquote, dquote] (x # xs)")
    case True
    then have eq: "replace_ne [dquote, dquote] [squote] (x # xs)
                = squote # replace_ne [dquote, dquote] [squote] (drop (length [dquote, dquote]) (x # xs))"
      by simp
    have "\<not> doubled (replace_ne [dquote, dquote] [squote] (drop (length [dquote, dquote]) (x # xs)))"
      using 2(1) True by blast
    moreover have "squote \<noteq> dquote" by (simp add: squote_def dquote_def)
    ultimately show ?thesis unfolding eq doubled_Cons by blast
  next
    case False
    then have eq: "replace_ne [dquote, dquote] [squote] (x # xs)
                = x # replace_ne [dquote, dquote] [squote] xs"
      by auto
    have tl: "\<not> doubled (replace_ne [dquote, dquote] [squote] xs)"
      using 2(2) False by blast
    have "x = dquote \<Longrightarrow> replace_ne [dquote, dquote] [squote] xs = []
            \<or> hd (replace_ne [dquote, dquote] [squote] xs) \<noteq> dquote"
      using False replace_ne_head [of xs] by blast
    with tl show ?thesis unfolding eq doubled_Cons by blast
  qed
qed

text \<open>
  C8. \<open>format_data\<close> is idempotent: for every string \<open>s\<close>, normalising the normalised
  text gives the normalised text again.
\<close>

theorem format_data_idempotent: "format_data (format_data s) = format_data s"
proof -
  define a where "a = py_replace [newline] '' newlinechar '' s"
  define b where "b = py_replace [carriage_return] '' newlinechar '' a"
  define t where "t = py_replace [dquote, dquote] [squote] b"
  have t: "format_data s = t" by (simp add: format_data_def a_def b_def t_def)
  have "newline \<notin> set a"
    unfolding a_def py_replace_def by (simp add: replace_ne_char_removed newline_def)
  then have nb: "newline \<notin> set b"
    using set_replace_ne [of "[carriage_return]" "'' newlinechar ''" a]
    unfolding b_def py_replace_def by (auto simp: newline_def)
  have cb: "carriage_return \<notin> set b"
    unfolding b_def py_replace_def by (simp add: replace_ne_char_removed carriage_return_def)
  have sub: "set t \<subseteq> set b \<union> {squote}"
    using set_replace_ne [of "[dquote, dquote]" "[squote]" b]
    unfolding t_def py_replace_def by simp
  have nt: "newline \<notin> set t" using nb sub by (auto simp: newline_def squote_def)
  have ct: "carriage_return \<notin> set t" using cb sub by (auto simp: carriage_return_def squote_def)
  have dt: "\<not> doubled t" unfolding t_def py_replace_def by (simp add: replace_ne_undoubled)
  have "format_data t = t"
    unfolding format_data_def py_replace_def
    using nt ct dt by (simp add: replace_ne_char_absent replace_ne_not_doubled)
  then show ?thesis by (simp add: t)
qed

section \<open>The acceptability policy\<close>

lemma length_split_sep: "length (split_sep c s) = count_list s c + 1"
  by (induction s) (auto split: list.splits)

lemma count_list_replicate: "count_list (replicate n x) y = (if x = y then n else 0)"
  by (induction n) auto

lemma acceptable_unfold:
  "acceptable data \<longleftrightarrow>
     length (split_sep CHR '' '' data) \<le> 50 \<and> 1 \<le> length data \<and> length data \<le> 1000
     \<and> data \<noteq> ''[deleted]'' \<and> data \<noteq> ''[removed]''"
  by (cases data) (auto simp: acceptable_def)

lemma acceptable_50_words: "acceptable (concat (replicate 49 ''w '') @ ''w'')"
  by code_simp

lemma acceptable_51_words: "\<not> acceptable (concat (replicate 50 ''w '') @ ''w'')"
  by code_simp

lemma acceptable_1000_chars: "acceptable (replicate 1000 CHR ''a'')"
proof -
  have "replicate 1000 CHR ''a'' \<noteq> ''[deleted]''" "replicate 1000 CHR ''a'' \<noteq> ''[removed]''"
    by (auto dest: arg_cong [where f = length])
  then show ?thesis
    by (simp add: acceptable_unfold length_split_sep count_list_replicate)
qed

text \<open>
  C5, as the specification states it, fails: the word count of the code is the number of
  pieces of \<open>data.split(' ')\<close>, which cuts at every single space and keeps empty pieces.
  A body of 26 words, each followed by two spaces, has 26 whitespace-split tokens and 78
  characters, yet the code splits it into 53 pieces and rejects it.
\<close>

theorem acceptable_whitespace_counterexample:
  "acceptable_spec (concat (replicate 26 ''a  '')) \<and> \<not> acceptable (concat (replicate 26 ''a  ''))"
  by code_simp

text \<open>
  C5, amended. \<open>acceptable data\<close> is true if and only if \<open>data.split(' ')\<close> has at most 50
  pieces (one more than the number of space characters of \<open>data\<close>), the length of \<open>data\<close>
  is at least 1 and at most 1000, and \<open>data\<close> is neither \<open>[deleted]\<close> nor \<open>[removed]\<close>. At
  the boundaries: 50 words separated by single spaces are accepted and 51 are rejected,
  1000 characters are accepted and 1001 are rejected, and the empty body is rejected.
\<close>

theorem acceptable_policy:
  "(acceptable data \<longleftrightarrow>
      length (split_sep CHR '' '' data) \<le> 50 \<and> 1 \<le> length data \<and> length data \<le> 1000
      \<and> data \<noteq> ''[deleted]'' \<and> data \<noteq> ''[removed]'')
   \<and> length (split_sep CHR '' '' data) = count_list data CHR '' '' + 1
   \<and> acceptable (concat (replicate 49 ''w '') @ ''w'')
   \<and> \<not> acceptable (concat (replicate 50 ''w '') @ ''w'')
   \<and> acceptable (replicate 1000 CHR ''a'')
   \<and> \<not> acceptable (replicate 1001 CHR ''a'')
   \<and> \<not> acceptable []
   \<and> \<not> acceptable ''[deleted]'' \<and> \<not> acceptable ''[removed]''"
proof -
  have "\<not> acceptable (replicate 1001 CHR ''a'')" "\<not> acceptable []"
       "\<not> acceptable ''[deleted]''" "\<not> acceptable ''[removed]''"
    by (simp_all add: acceptable_unfold)
  then show ?thesis
    using acceptable_unfold [of data] length_split_sep [of "CHR '' ''" data]
      acceptable_50_words acceptable_51_words acceptable_1000_chars
    by blast
qed

section \<open>What a run can do to the table\<close>

lemma insert_row_cases:
  "insert_row t r = None \<or>
   (insert_row t r = Some (t @ [r]) \<and> parent_id r \<notin> set (map parent_id t)
      \<and> comment_id r \<notin> set (map comment_id t))"
  by (simp add: insert_row_def)

lemma upsert_cases:
  assumes "upsert t r new = Within (Some t')"
  shows "(t' = t @ [r] \<and> parent_id r \<notin> set (map parent_id t))
       \<or> map parent_id t' = map parent_id t"
proof (cases "parent_id r \<in> set (map parent_id t)")
  case True
  with assms have "t' = map (\<lambda>x. if parent_id x = parent_id r then x\<lparr>comment := Some new\<rparr> else x) t"
    by (auto simp: upsert_def split: if_splits)
  then have "map parent_id t' = map parent_id t"
    by (simp add: comp_def if_distrib cong: if_cong)
  then show ?thesis by blast
next
  case False
  with assms insert_row_cases [of t r] show ?thesis
    by (auto simp: upsert_def)
qed

text \<open>
  A statement that is executed adds a row under a new key, the key it names, or leaves
  the keys as they are.
\<close>

lemma execute_insert_cases:
  assumes "execute_insert t pid cid par com sub ux sc = Within (Some t')"
  shows "(\<exists>r. t' = t @ [r] \<and> parent_id r = pid \<and> pid \<notin> set (map parent_id t))
       \<or> map parent_id t' = map parent_id t"
proof (cases "plain_text com")
  case True
  with assms have "insert_row t \<lparr>parent_id = pid, comment_id = cid, parent = par,
      comment = Some com, subreddit = sub, unix = ux, score = sc\<rparr> = Some t'"
    by (auto simp: execute_insert_def split: if_splits)
  then show ?thesis
    using insert_row_cases [of t "\<lparr>parent_id = pid, comment_id = cid, parent = par,
      comment = Some com, subreddit = sub, unix = ux, score = sc\<rparr>"]
    by auto
next
  case False
  with assms obtain c0 s1 u1 n1 new where
    "upsert t \<lparr>parent_id = pid, comment_id = cid, parent = par,
       comment = Some c0, subreddit = s1, unix = u1, score = n1\<rparr> new = Within (Some t')"
    by (auto simp: execute_insert_def split: if_splits option.splits)
  from upsert_cases [OF this] show ?thesis by auto
qed

lemma execute_cases:
  assumes "execute t s = Within (Some t')"
  shows "(\<exists>r. t' = t @ [r] \<and> stmt_parent_id s = Some (parent_id r)
            \<and> parent_id r \<notin> set (map parent_id t))
       \<or> map parent_id t' = map parent_id t"
proof (cases s)
  case (Insert_has_parent pid cid par com sub ux sc)
  with assms execute_insert_cases [of t pid cid "Some par" com sub ux sc t']
  show ?thesis by auto
next
  case (Insert_no_parent pid cid com sub ux sc)
  with assms execute_insert_cases [of t pid cid None com sub ux sc t']
  show ?thesis by auto
next
  case Update_placeholders
  with assms show ?thesis by simp
qed

lemma execute_or_pass_cases:
  assumes "execute_or_pass t s = Within t'"
  shows "t' = t
       \<or> (\<exists>r. t' = t @ [r] \<and> stmt_parent_id s = Some (parent_id r)
             \<and> parent_id r \<notin> set (map parent_id t))
       \<or> map parent_id t' = map parent_id t"
proof (cases "execute t s")
  case Beyond
  with assms show ?thesis by (simp add: execute_or_pass_def)
next
  case (Within res)
  show ?thesis
  proof (cases res)
    case None
    with Within assms show ?thesis by (simp add: execute_or_pass_def)
  next
    case (Some t'')
    with Within assms have "execute t s = Within (Some t')"
      by (simp add: execute_or_pass_def)
    from execute_cases [OF this] show ?thesis by blast
  qed
qed


lemma execute_or_pass_absent:
  assumes "execute_or_pass t s = Within t'" "pid \<notin> set (map parent_id t)"
    "stmt_parent_id s \<noteq> Some pid"
  shows "pid \<notin> set (map parent_id t')"
proof -
  from execute_or_pass_cases [OF assms(1)] consider "t' = t"
    | r where "t' = t @ [r]" "stmt_parent_id s = Some (parent_id r)"
    | "map parent_id t' = map parent_id t"
    by blast
  then show ?thesis
  proof cases
    case 1
    with assms(2) show ?thesis by simp
  next
    case 2
    with assms(2,3) show ?thesis by auto
  next
    case 3
    with assms(2) show ?thesis by simp
  qed
qed


lemma run_transaction_absent:
  "run_transaction t ss = Within t' \<Longrightarrow> pid \<notin> set (map parent_id t) \<Longrightarrow>
   Some pid \<notin> set (map stmt_parent_id ss) \<Longrightarrow> pid \<notin> set (map parent_id t')"
proof (induction ss arbitrary: t)
  case Nil
  then show ?case by simp
next
  case (Cons s ss)
  from Cons.prems(1) obtain t1 where 1: "execute_or_pass t s = Within t1"
    and 2: "run_transaction t1 ss = Within t'"
    by (auto split: within.splits)
  from Cons.prems(3) have 3: "stmt_parent_id s \<noteq> Some pid" "Some pid \<notin> set (map stmt_parent_id ss)"
    by auto
  from Cons.IH [OF 2 execute_or_pass_absent [OF 1 Cons.prems(2) 3(1)] 3(2)] show ?case .
qed

lemma run_transaction_append:
  "run_transaction t (xs @ ys) =
     (case run_transaction t xs of Beyond \<Rightarrow> Beyond | Within t' \<Rightarrow> run_transaction t' ys)"
  by (induction xs arbitrary: t) (auto split: within.splits)

lemma run_transaction_updates: "run_transaction t (replicate n Update_placeholders) = Within t"
  by (induction n) (simp_all add: execute_or_pass_def)



text \<open>One record leaves table and buffer as they are, or enqueues one statement.\<close>

lemma transaction_bldr_cases:
  assumes "transaction_bldr s st = Within st'"
  shows "(length (sql_transaction st) < 1000 \<and> st' = st\<lparr>sql_transaction := sql_transaction st @ [s]\<rparr>)
       \<or> (\<exists>t'. run_transaction (table st) (sql_transaction st @ [s]) = Within t'
              \<and> st' = st\<lparr>table := t', sql_transaction := []\<rparr>)"
  using assms
  by (auto simp: transaction_bldr_def Let_def split: if_splits within.splits)

lemma determine_insert_cases:
  assumes "determine_insert cid pid pd body sub cu sc st = Within st'"
  shows "st' = st
       \<or> (\<exists>s st1. transaction_bldr s st = Within st1
             \<and> (st' = st1 \<or> st' = st1\<lparr>paired_rows := paired_rows st1 + 1\<rparr>)
             \<and> (s = Update_placeholders
                \<or> s = Insert_no_parent pid cid body sub cu sc
                \<or> (\<exists>par. pd = Within (Some par) \<and> s = Insert_has_parent pid cid par body sub cu sc)))"
  using assms
  unfolding determine_insert_def Let_def sql_insert_replace_comment_def
    sql_insert_has_parent_def sql_insert_no_parent_def
  by (auto split: if_splits within.splits option.splits)

lemma process_row_cases:
  assumes "process_row st r = Within (e, st')"
  shows "(\<exists>k. e = Some (KeyError k) \<and> st' = st\<lparr>row_counter := row_counter st + 1\<rparr>)
       \<or> (e = None \<and>
           (\<exists>pid cid raw sub cu sc st1.
              j_parent_id r = Some pid \<and> j_body r = Some raw \<and> j_created_utc r = Some cu
              \<and> j_score r = Some sc \<and> j_name r = Some cid \<and> j_subreddit r = Some sub
              \<and> determine_insert cid pid (find_parent (table st) pid) (format_data raw) sub cu sc
                   (st\<lparr>row_counter := row_counter st + 1\<rparr>) = Within st1
              \<and> st' = report_progress st1))"
  using assms
  unfolding process_row_def Let_def
  by (auto split: option.splits within.splits)

lemma find_parent_stored:
  "find_parent t pid = Within (Some par) \<Longrightarrow> \<exists>x \<in> set t. comment x = Some par"
  by (auto simp: find_parent_def find_Some_iff split: if_splits option.splits)

lemma report_progress_fields [simp]:
  "table (report_progress st) = table st"
  "sql_transaction (report_progress st) = sql_transaction st"
  "paired_rows (report_progress st) = paired_rows st"
  "row_counter (report_progress st) = row_counter st"
  by (simp_all add: report_progress_def)

lemma process_row_effect:
  assumes "process_row st r = Within (e, st')"
  shows "(table st' = table st \<and> sql_transaction st' = sql_transaction st)
       \<or> (\<exists>s. (stmt_parent_id s = None \<or> stmt_parent_id s = j_parent_id r)
             \<and> (plain_state st \<and> plain_record r \<longrightarrow> plain_stmt s)
             \<and> ((table st' = table st \<and> sql_transaction st' = sql_transaction st @ [s])
                \<or> (run_transaction (table st) (sql_transaction st @ [s]) = Within (table st')
                   \<and> sql_transaction st' = [])))"
proof -
  let ?st = "st\<lparr>row_counter := row_counter st + 1\<rparr>"
  from process_row_cases [OF assms] consider
      "st' = ?st"
    | pid cid raw sub cu sc st1 where
        "j_parent_id r = Some pid" "j_body r = Some raw" "j_created_utc r = Some cu"
        "j_score r = Some sc" "j_name r = Some cid" "j_subreddit r = Some sub"
        "determine_insert cid pid (find_parent (table st) pid) (format_data raw) sub cu sc ?st
           = Within st1"
        "st' = report_progress st1"
    by blast
  then show ?thesis
  proof cases
    case 1
    then show ?thesis by simp
  next
    case 2
    from determine_insert_cases [OF 2(7)] consider "st1 = ?st"
      | s st2 where "transaction_bldr s ?st = Within st2"
          "st1 = st2 \<or> st1 = st2\<lparr>paired_rows := paired_rows st2 + 1\<rparr>"
          "s = Update_placeholders \<or> s = Insert_no_parent pid cid (format_data raw) sub cu sc
           \<or> (\<exists>par. find_parent (table st) pid = Within (Some par)
                 \<and> s = Insert_has_parent pid cid par (format_data raw) sub cu sc)"
      by auto
    then show ?thesis
    proof cases
      case 1
      with 2(8) show ?thesis by simp
    next
      case (2 s st2)
      have par: "stmt_parent_id s = None \<or> stmt_parent_id s = j_parent_id r"
        using 2(3) \<open>j_parent_id r = Some pid\<close> by auto
      have plain: "plain_stmt s" if ps: "plain_state st" and pr: "plain_record r"
      proof -
        from pr have v: "plain_text pid" "plain_text cid" "plain_text (format_data raw)"
          "plain_text sub" "int64 cu" "int64 sc"
          using \<open>j_parent_id r = Some pid\<close> \<open>j_body r = Some raw\<close> \<open>j_created_utc r = Some cu\<close>
            \<open>j_score r = Some sc\<close> \<open>j_name r = Some cid\<close> \<open>j_subreddit r = Some sub\<close>
          by (simp_all add: plain_record_def plain_value_def plain_number_def)
        have "plain_text par" if "find_parent (table st) pid = Within (Some par)" for par
        proof -
          from find_parent_stored [OF that] obtain x where "x \<in> set (table st)" "comment x = Some par"
            by blast
          with ps show ?thesis
            by (auto simp: plain_state_def list_all_iff plain_value_def)
        qed
        with v 2(3) show ?thesis by auto
      qed
      from transaction_bldr_cases [OF 2(1)]
      have "(table st2 = table st \<and> sql_transaction st2 = sql_transaction st @ [s])
          \<or> (run_transaction (table st) (sql_transaction st @ [s]) = Within (table st2)
             \<and> sql_transaction st2 = [])"
        by auto
      moreover have "table st' = table st2" "sql_transaction st' = sql_transaction st2"
        using 2(2) \<open>st' = report_progress st1\<close> by auto
      ultimately show ?thesis using par plain by auto
    qed
  qed
qed



lemma ingest_append:
  "ingest st (xs @ ys) =
     (case ingest st xs of
        Beyond \<Rightarrow> Beyond
      | Within (Some e, st') \<Rightarrow> Within (Some e, st')
      | Within (None, st') \<Rightarrow> ingest st' ys)"
  by (induction xs arbitrary: st) (auto split: within.splits prod.splits option.splits)

text \<open>The scenario bodies are normalised already and pass the filter.\<close>

lemma format_data_scenario: "format_data ''hello'' = ''hello''" "format_data ''hi'' = ''hi''"
  by (simp_all add: format_data_def py_replace_def newline_def carriage_return_def dquote_def)

lemma acceptable_scenario: "acceptable ''hello''" "acceptable ''hi''"
  by (simp_all add: acceptable_def)

lemma plain_scenario: "plain_id ''t1_a''"
  by (simp add: plain_id_def squote_def nul_def)

lemma ingest_hello: "ingest (initial_state []) [scenario_hello]
   = Within (None, \<lparr>table = [],
       sql_transaction = [Insert_no_parent ''t1_a'' ''t1_b'' ''hello'' ''AskReddit'' 1325376000 5],
       row_counter = 1, paired_rows = 0, progress = []\<rparr>)"
  by (simp add: initial_state_def scenario_hello_def process_row_def determine_insert_def
      find_parent_def find_existing_score_def format_data_scenario acceptable_scenario
      plain_scenario sql_insert_no_parent_def transaction_bldr_def report_progress_def Let_def)

lemma sql_text_hello:
  "sql_text (Insert_no_parent ''t1_a'' ''t1_b'' ''hello'' ''AskReddit'' 1325376000 5)
   = ''INSERT INTO parent_reply (parent_id, comment_id, comment, subreddit, unix, score) VALUES (''
     @ [dquote] @ ''t1_a'' @ [dquote] @ '','' @ [dquote] @ ''t1_b'' @ [dquote] @ '',''
     @ [dquote] @ ''hello'' @ [dquote] @ '','' @ [dquote] @ ''AskReddit'' @ [dquote]
     @ '',1325376000,5);''"
  by (simp add: double_quoted_def show_int_def)

section \<open>The best reply\<close>

text \<open>
  C1 fails on the code. From an empty table, the score-3 reply to \<open>t1_a\<close> followed by the
  score-5 reply leaves two inserts in the buffer, since neither lookup sees the other
  reply; a flush of the two stores the score-3 reply and skips the second insert on the
  primary key. When the score-3 row is stored already, the score-5 reply enqueues the
  replace statement, and the flush that executes it leaves the row as it was.
\<close>

theorem best_reply_not_kept:
  "ingest (initial_state []) [scenario_hi, scenario_hello]
     = Within (None, \<lparr>table = [],
         sql_transaction = [Insert_no_parent ''t1_a'' ''t1_c'' ''hi'' ''AskReddit'' 1325376001 3,
                            Insert_no_parent ''t1_a'' ''t1_b'' ''hello'' ''AskReddit'' 1325376000 5],
         row_counter = 2, paired_rows = 0, progress = []\<rparr>)
   \<and> run_transaction [] [Insert_no_parent ''t1_a'' ''t1_c'' ''hi'' ''AskReddit'' 1325376001 3,
                        Insert_no_parent ''t1_a'' ''t1_b'' ''hello'' ''AskReddit'' 1325376000 5]
       = Within [stored_hi]
   \<and> ingest \<lparr>table = [stored_hi], sql_transaction = replicate 1000 Update_placeholders,
              row_counter = 0, paired_rows = 0, progress = []\<rparr> [scenario_hello]
       = Within (None, \<lparr>table = [stored_hi], sql_transaction = [],
                 row_counter = 1, paired_rows = 0, progress = []\<rparr>)"
proof -
  have a: "ingest (initial_state []) [scenario_hi, scenario_hello]
     = Within (None, \<lparr>table = [],
         sql_transaction = [Insert_no_parent ''t1_a'' ''t1_c'' ''hi'' ''AskReddit'' 1325376001 3,
                            Insert_no_parent ''t1_a'' ''t1_b'' ''hello'' ''AskReddit'' 1325376000 5],
         row_counter = 2, paired_rows = 0, progress = []\<rparr>)"
    by (simp add: initial_state_def scenario_hello_def scenario_hi_def process_row_def
        determine_insert_def find_parent_def find_existing_score_def format_data_scenario
        acceptable_scenario plain_scenario sql_insert_no_parent_def transaction_bldr_def
        report_progress_def Let_def)
  have b: "run_transaction [] [Insert_no_parent ''t1_a'' ''t1_c'' ''hi'' ''AskReddit'' 1325376001 3,
                        Insert_no_parent ''t1_a'' ''t1_b'' ''hello'' ''AskReddit'' 1325376000 5]
       = Within [stored_hi]"
    by (simp add: execute_or_pass_def execute_insert_def insert_row_def stored_hi_def
        plain_text_def int64_def dquote_def nul_def)
  have "run_transaction [stored_hi] (replicate 1000 Update_placeholders @ [Update_placeholders])
          = Within [stored_hi]"
    by (simp add: run_transaction_append run_transaction_updates execute_or_pass_def)
  then have c: "ingest \<lparr>table = [stored_hi], sql_transaction = replicate 1000 Update_placeholders,
              row_counter = 0, paired_rows = 0, progress = []\<rparr> [scenario_hello]
       = Within (None, \<lparr>table = [stored_hi], sql_transaction = [],
                 row_counter = 1, paired_rows = 0, progress = []\<rparr>)"
    by (simp add: scenario_hello_def process_row_def determine_insert_def find_parent_def
        find_existing_score_def format_data_scenario acceptable_scenario plain_scenario
        sql_insert_replace_comment_def transaction_bldr_def report_progress_def Let_def stored_hi_def)
  from a b c show ?thesis by blast
qed

section \<open>Rejected and malformed records\<close>

lemma process_row_low_score:
  assumes "j_score r = Some sc" "sc < 2"
  shows "\<exists>e st'. process_row st r = Within (e, st')
           \<and> table st' = table st \<and> sql_transaction st' = sql_transaction st
           \<and> paired_rows st' = paired_rows st"
  using assms unfolding process_row_def Let_def
  by (auto simp: determine_insert_def split: option.splits)

lemma process_row_absent:
  assumes "process_row st r = Within (e, st')" "parent_absent pid st"
    and "j_parent_id r = Some pid \<longrightarrow> (\<exists>sc. j_score r = Some sc \<and> sc < 2)"
  shows "parent_absent pid st'"
proof (cases "j_parent_id r = Some pid")
  case True
  with assms(3) obtain sc where "j_score r = Some sc" "sc < 2" by blast
  from process_row_low_score [OF this, of st] assms(1,2) show ?thesis
    by (auto simp: parent_absent_def)
next
  case False
  from process_row_effect [OF assms(1)] consider
      "table st' = table st" "sql_transaction st' = sql_transaction st"
    | s where "stmt_parent_id s = None \<or> stmt_parent_id s = j_parent_id r"
        "table st' = table st" "sql_transaction st' = sql_transaction st @ [s]"
    | s where "stmt_parent_id s = None \<or> stmt_parent_id s = j_parent_id r"
        "run_transaction (table st) (sql_transaction st @ [s]) = Within (table st')"
        "sql_transaction st' = []"
    by blast
  then show ?thesis
  proof cases
    case 1
    with assms(2) show ?thesis by (simp add: parent_absent_def)
  next
    case (2 s)
    with False assms(2) show ?thesis by (auto simp: parent_absent_def)
  next
    case (3 s)
    from 3(1) False have "stmt_parent_id s \<noteq> Some pid" by auto
    with assms(2) have "Some pid \<notin> set (map stmt_parent_id (sql_transaction st @ [s]))"
      by (auto simp: parent_absent_def)
    from run_transaction_absent [OF 3(2) _ this] assms(2) 3(3) show ?thesis
      by (simp add: parent_absent_def)
  qed
qed

lemma ingest_absent:
  assumes "ingest st rows = Within (e, st')" "parent_absent pid st"
    and "\<forall>r \<in> set rows. j_parent_id r = Some pid \<longrightarrow> (\<exists>sc. j_score r = Some sc \<and> sc < 2)"
  shows "parent_absent pid st'"
  using assms
proof (induction rows arbitrary: st)
  case Nil
  then show ?case by simp
next
  case (Cons r rows)
  from Cons.prems(1) obtain e1 st1 where p: "process_row st r = Within (e1, st1)"
    by (auto split: within.splits)
  have 1: "parent_absent pid st1"
    using process_row_absent [OF p Cons.prems(2)] Cons.prems(3) by simp
  show ?case
  proof (cases e1)
    case None
    with p Cons.prems(1) have "ingest st1 rows = Within (e, st')" by simp
    from Cons.IH [OF this 1] Cons.prems(3) show ?thesis by simp
  next
    case (Some a)
    with p Cons.prems(1) 1 show ?thesis by simp
  qed
qed

text \<open>
  C9. A record whose score is below 2 enqueues no statement: processing it leaves the
  table, the buffer and the pair counter as they were. Hence a parent that only receives
  such replies never gets a row: if no row and no pending insert is keyed by \<open>pid\<close>, every
  reply to \<open>pid\<close> in the stream has a score below 2, and the run stays within the statements
  that the model covers, the same holds after the run.
\<close>

theorem low_score_enqueues_nothing:
  assumes "j_score r = Some sc" and "sc < 2"
  shows "(\<exists>e st'. process_row st r = Within (e, st')
            \<and> table st' = table st
            \<and> sql_transaction st' = sql_transaction st
            \<and> paired_rows st' = paired_rows st)
       \<and> (parent_absent pid st
            \<and> (\<forall>x \<in> set rows. j_parent_id x = Some pid \<longrightarrow> (\<exists>n. j_score x = Some n \<and> n < 2))
            \<and> ingest st rows = Within (e2, st2)
          \<longrightarrow> parent_absent pid st2)"
  using process_row_low_score [OF assms, of st] ingest_absent [of st rows e2 st2 pid]
  by blast

theorem low_score_enqueues_nothing_witness:
  "j_score scenario_low = Some 1 \<and> (1::int) < 2
   \<and> process_row (initial_state []) scenario_low
       = Within (None, \<lparr>table = [], sql_transaction = [], row_counter = 1, paired_rows = 0,
                         progress = []\<rparr>)
   \<and> parent_absent ''t1_a'' (initial_state [])
   \<and> j_parent_id scenario_low = Some ''t1_a''
   \<and> ingest (initial_state []) [scenario_low]
       = Within (None, \<lparr>table = [], sql_transaction = [], row_counter = 1, paired_rows = 0,
                         progress = []\<rparr>)
   \<and> parent_absent ''t1_a'' \<lparr>table = [], sql_transaction = [], row_counter = 1, paired_rows = 0,
                               progress = []\<rparr>"
proof -
  have s: "j_score scenario_low = Some 1" "j_parent_id scenario_low = Some ''t1_a''"
    by (simp_all add: scenario_low_def)
  have a: "parent_absent ''t1_a'' (initial_state [])"
    by (simp add: parent_absent_def initial_state_def)
  have b: "\<forall>x \<in> set [scenario_low]. j_parent_id x = Some ''t1_a'' \<longrightarrow> (\<exists>n. j_score x = Some n \<and> n < 2)"
    using s by simp
  have p: "process_row (initial_state []) scenario_low
       = Within (None, \<lparr>table = [], sql_transaction = [], row_counter = 1, paired_rows = 0,
                         progress = []\<rparr>)"
    by (simp add: initial_state_def scenario_low_def process_row_def determine_insert_def
        report_progress_def)
  then have i: "ingest (initial_state []) [scenario_low]
       = Within (None, \<lparr>table = [], sql_transaction = [], row_counter = 1, paired_rows = 0,
                         progress = []\<rparr>)"
    by simp
  from low_score_enqueues_nothing [OF s(1), of "initial_state []" "''t1_a''" "[scenario_low]" None
      "\<lparr>table = [], sql_transaction = [], row_counter = 1, paired_rows = 0, progress = []\<rparr>"]
    s a b p i
  show ?thesis by simp
qed

lemma process_row_missing:
  assumes "missing_keys r = k # ks"
  shows "process_row st r = Within (Some (KeyError k), st\<lparr>row_counter := row_counter st + 1\<rparr>)"
  using assms unfolding process_row_def Let_def missing_keys_def
  by (auto split: option.splits if_splits)

text \<open>
  C2, as the specification states it, fails: the record without a \<open>body\<close> is counted and
  then ends the run with \<open>KeyError\<close>; the record after it is never read.
\<close>

theorem missing_key_counterexample:
  "ingest (initial_state []) [scenario_hi\<lparr>j_body := None\<rparr>, scenario_hello]
     = Within (Some (KeyError ''body''), (initial_state [])\<lparr>row_counter := 1\<rparr>)"
  by (simp add: initial_state_def scenario_hi_def process_row_def)

text \<open>
  C2, amended. A record that lacks one of the six required keys is counted as read and
  raises \<open>KeyError\<close> for the first key it lacks, in the order in which the loop reads them;
  it enqueues nothing, and the run ends there with the state that the records before it
  produced, whatever records follow.
\<close>

theorem missing_key_ends_run:
  assumes "ingest st pre = Within (None, st1)"
    and "missing_keys r = k # ks"
  shows "ingest st (pre @ r # rest)
           = Within (Some (KeyError k), st1\<lparr>row_counter := row_counter st1 + 1\<rparr>)"
  by (simp add: ingest_append assms(1) process_row_missing [OF assms(2)])

theorem missing_key_witness:
  "ingest (initial_state []) [scenario_hello]
     = Within (None, \<lparr>table = [],
         sql_transaction = [Insert_no_parent ''t1_a'' ''t1_b'' ''hello'' ''AskReddit'' 1325376000 5],
         row_counter = 1, paired_rows = 0, progress = []\<rparr>)
   \<and> missing_keys (scenario_hi\<lparr>j_created_utc := None, j_name := None\<rparr>) = [''created_utc'', ''name'']
   \<and> ingest (initial_state []) ([scenario_hello] @ scenario_hi\<lparr>j_created_utc := None, j_name := None\<rparr> # [scenario_hello])
        = Within (Some (KeyError ''created_utc''),
           \<lparr>table = [],
            sql_transaction = [Insert_no_parent ''t1_a'' ''t1_b'' ''hello'' ''AskReddit'' 1325376000 5],
            row_counter = 2, paired_rows = 0, progress = []\<rparr>)"
proof -
  have m: "missing_keys (scenario_hi\<lparr>j_created_utc := None, j_name := None\<rparr>) = [''created_utc'', ''name'']"
    by (simp add: missing_keys_def scenario_hi_def)
  from missing_key_ends_run [OF ingest_hello m, of "[scenario_hello]"] ingest_hello m
  show ?thesis by simp
qed

section \<open>The trailing buffer\<close>

lemma process_row_short:
  assumes "process_row st r = Within (e, st')" "length (sql_transaction st) < 1000"
  shows "table st' = table st \<and> length (sql_transaction st') \<le> length (sql_transaction st) + 1"
proof -
  let ?st = "st\<lparr>row_counter := row_counter st + 1\<rparr>"
  from process_row_cases [OF assms(1)] consider "st' = ?st"
    | pid cid raw sub cu sc st1 where
        "determine_insert cid pid (find_parent (table st) pid) (format_data raw) sub cu sc ?st
           = Within st1"
        "st' = report_progress st1"
    by blast
  then show ?thesis
  proof cases
    case 1
    then show ?thesis by simp
  next
    case 2
    from determine_insert_cases [OF 2(1)] consider "st1 = ?st"
      | s st2 where "transaction_bldr s ?st = Within st2"
          "st1 = st2 \<or> st1 = st2\<lparr>paired_rows := paired_rows st2 + 1\<rparr>"
      by auto
    then show ?thesis
    proof cases
      case 1
      with 2(2) show ?thesis by simp
    next
      case (2 s st2)
      from 2(1) assms(2) have "st2 = ?st\<lparr>sql_transaction := sql_transaction ?st @ [s]\<rparr>"
        by (simp add: transaction_bldr_def Let_def)
      with 2(2) \<open>st' = report_progress st1\<close> show ?thesis by auto
    qed
  qed
qed

text \<open>
  A run that enqueues at most 1000 statements in all never reaches the threshold, so it
  commits nothing.
\<close>

lemma short_run_commits_nothing:
  "ingest st rows = Within (e, st') \<Longrightarrow> length (sql_transaction st) + length rows \<le> 1000 \<Longrightarrow>
   table st' = table st"
proof (induction rows arbitrary: st)
  case Nil
  then show ?case by simp
next
  case (Cons r rows)
  from Cons.prems(1) obtain e1 st1 where p: "process_row st r = Within (e1, st1)"
    by (auto split: within.splits)
  from Cons.prems(2) have "length (sql_transaction st) < 1000" by simp
  from process_row_short [OF p this]
  have 1: "table st1 = table st" "length (sql_transaction st1) \<le> length (sql_transaction st) + 1"
    by simp_all
  show ?case
  proof (cases e1)
    case None
    with p Cons.prems(1) have "ingest st1 rows = Within (e, st')" by simp
    moreover have "length (sql_transaction st1) + length rows \<le> 1000"
      using 1 Cons.prems(2) by simp
    ultimately show ?thesis using Cons.IH [of st1] 1 by simp
  next
    case (Some a)
    with p Cons.prems(1) 1 show ?thesis by simp
  qed
qed

text \<open>
  C3 fails on the code. The loop ends at end-of-stream without any flush: after the run
  over the single score-5 reply the insert is still in the buffer and the table is empty.
\<close>

theorem trailing_buffer_not_flushed:
  "ingest (initial_state []) [scenario_hello]
     = Within (None, \<lparr>table = [],
         sql_transaction = [Insert_no_parent ''t1_a'' ''t1_b'' ''hello'' ''AskReddit'' 1325376000 5],
         row_counter = 1, paired_rows = 0, progress = []\<rparr>)
   \<and> (\<exists>e st'. ingest (initial_state []) [scenario_hello] = Within (e, st')
         \<and> table st' = [] \<and> sql_transaction st' \<noteq> [])"
  by (simp only: ingest_hello) simp

section \<open>Runs on values that stay inside their literals\<close>



lemma plain_state_fields [simp]:
  "plain_state (st\<lparr>row_counter := n\<rparr>) = plain_state st"
  "plain_state (st\<lparr>paired_rows := m\<rparr>) = plain_state st"
  "plain_state (st\<lparr>progress := l\<rparr>) = plain_state st"
  "plain_state (report_progress st) = plain_state st"
  by (simp_all add: plain_state_def report_progress_def)







section \<open>One row per parent\<close>






lemma upsert_text:
  "sql_text (Insert_no_parent ''t1_a'' ''t1_z'' upsert_body ''AskReddit'' 1325376005 5)
   = ''INSERT INTO parent_reply (parent_id, comment_id, comment, subreddit, unix, score) VALUES (''
     @ [dquote] @ ''t1_a'' @ [dquote] @ '','' @ [dquote] @ ''t1_z'' @ [dquote] @ '',''
     @ [dquote] @ ''x'' @ [dquote] @ '','' @ [dquote] @ ''s'' @ [dquote]
     @ '',1,9) ON CONFLICT(parent_id) DO UPDATE SET comment='' @ [squote] @ ''pwned'' @ [squote]
     @ '' --'' @ [dquote] @ '','' @ [dquote] @ ''AskReddit'' @ [dquote] @ '',1325376005,5);''"
  by (simp add: double_quoted_def show_int_def upsert_body_def upsert_clause_def)






section \<open>Stored rows never change\<close>










section \<open>Export\<close>

lemma write_contents_Inr:
  "write_contents cs f = Inr f' \<Longrightarrow>
   \<exists>ps. cs = map Some ps \<and> f' = f @ concat (map (\<lambda>p. p @ [newline]) ps)"
proof (induction cs f rule: write_contents.induct)
  case (1 f)
  then show ?case by simp
next
  case (2 cs f)
  then show ?case by simp
next
  case (3 content cs f)
  then obtain ps where "cs = map Some ps"
    "f' = (f @ content @ [newline]) @ concat (map (\<lambda>p. p @ [newline]) ps)"
    by auto
  then have "Some content # cs = map Some (content # ps)
             \<and> f' = f @ concat (map (\<lambda>p. p @ [newline]) (content # ps))"
    by simp
  then show ?case by (rule exI [of _ "content # ps"])
qed

lemma write_contents_Some:
  "write_contents (map Some ps) f = Inr (f @ concat (map (\<lambda>p. p @ [newline]) ps))"
  by (induction ps arbitrary: f) simp_all

lemma write_str_contents_Some:
  "write_str_contents (map Some cs) f = f @ concat (map (\<lambda>c. c @ [newline]) cs)"
  by (induction cs arbitrary: f) (simp_all add: py_str_def)

lemma export_step_Inr:
  assumes "export_step limit t st = Inr st'"
  obtains st1 where
    "write_page (read_sql t (last_unix st) limit)
       (st\<lparr>last_unix := unix (last (read_sql t (last_unix st) limit)),
           cur_length := length (read_sql t (last_unix st) limit)\<rparr>) = Inr st1"
    "st' = count_page limit st1"
  using assms
  by (auto simp: export_step_def Let_def split: if_splits sum.splits)

lemma count_page_files [simp]:
  "test_from (count_page limit st) = test_from st"
  "test_to (count_page limit st) = test_to st"
  "train_from (count_page limit st) = train_from st"
  "train_to (count_page limit st) = train_to st"
  by (simp_all add: count_page_def Let_def)

text \<open>The lines of a text that was written body by body, each followed by a line break.\<close>

lemma split_sep_body:
  "c \<notin> set b \<Longrightarrow> split_sep c (b @ c # rest) = b # split_sep c rest"
  by (induction b) auto

lemma split_sep_bodies:
  "\<forall>b \<in> set bs. c \<notin> set b \<Longrightarrow> split_sep c (concat (map (\<lambda>b. b @ [c]) bs)) = bs @ [[]]"
  by (induction bs) (simp_all add: split_sep_body)

lemma file_lines_bodies:
  assumes "\<forall>b \<in> set bs. single_line b"
  shows "file_lines (concat (map (\<lambda>b. b @ [newline]) bs)) = bs"
proof -
  from assms have "\<forall>b \<in> set bs. newline \<notin> set b" by (simp add: single_line_def)
  from split_sep_bodies [OF this] show ?thesis by (simp add: file_lines_def)
qed

lemma page_written_bodies:
  assumes "map parent df = map Some ps" "map comment df = map Some cs"
    "\<forall>b \<in> set ps. single_line b" "\<forall>b \<in> set cs. single_line b"
  shows "page_written df f (f @ concat (map (\<lambda>p. p @ [newline]) ps))
           g (g @ concat (map (\<lambda>c. c @ [newline]) cs))"
  using assms by (simp add: page_written_def file_lines_bodies)

lemma one_line_pairs:
  assumes "list_all one_line_pair df"
  shows "\<exists>ps cs. map parent df = map Some ps \<and> map comment df = map Some cs
           \<and> (\<forall>b \<in> set ps. single_line b) \<and> (\<forall>b \<in> set cs. single_line b)"
  using assms
proof (induction df)
  case Nil
  then show ?case by simp
next
  case (Cons x df)
  then obtain ps cs where 1: "map parent df = map Some ps" "map comment df = map Some cs"
    "\<forall>b \<in> set ps. single_line b" "\<forall>b \<in> set cs. single_line b"
    by auto
  from Cons.prems obtain p c where 2: "parent x = Some p" "comment x = Some c"
    "single_line p" "single_line c"
    by (auto simp: one_line_pair_def split: option.splits)
  from 1 2 have "map parent (x # df) = map Some (p # ps) \<and> map comment (x # df) = map Some (c # cs)
           \<and> (\<forall>b \<in> set (p # ps). single_line b) \<and> (\<forall>b \<in> set (c # cs). single_line b)"
    by simp
  then show ?case by blast
qed

lemma read_sql_page_one:
  "read_sql [pair_two, stored_hi, pair_one] (last_unix (export_init 1 [] [] [] [])) 1 = [pair_one]"
  by (simp add: read_sql_def export_init_def pair_one_def pair_two_def stored_hi_def)

lemma read_sql_page_two:
  "read_sql [pair_two, stored_hi, pair_one] (last_unix export_page_one) 1 = [pair_two]"
  by (simp add: read_sql_def export_page_one_def pair_one_def pair_two_def stored_hi_def)

lemma export_step_page_one:
  "export_step 1 [pair_two, stored_hi, pair_one] (export_init 1 [] [] [] []) = Inr export_page_one"
  by (simp add: export_step_def read_sql_def export_init_def pair_one_def pair_two_def stored_hi_def
      write_page_def count_page_def export_page_one_def Let_def)

lemma export_step_page_two:
  "export_step 1 [pair_two, stored_hi, pair_one] export_page_one = Inr export_page_two"
  by (simp add: export_step_def read_sql_def pair_one_def pair_two_def stored_hi_def
      write_page_def count_page_def export_page_one_def export_page_two_def Let_def py_str_def)

lemma one_line_pair_scenario: "one_line_pair pair_one" "one_line_pair pair_two"
  by (simp_all add: one_line_pair_def single_line_def pair_one_def pair_two_def newline_def
      carriage_return_def)

text \<open>
  A comment that is NULL makes the held-out page raise: \<open>content+'\n'\<close> is evaluated on
  \<open>None\<close>, after the prompt file has received the whole page. The training page writes
  the text \<open>None\<close> for it.
\<close>

lemma export_null_comment:
  "export_step 1 [pair_one\<lparr>comment := None\<rparr>] (export_init 1 [] [] [] []) = Inl TypeError"
  "export_step 1 [pair_one\<lparr>comment := None\<rparr>] ((export_init 1 [] [] [] [])\<lparr>test_done := True\<rparr>)
     = Inr \<lparr>last_unix = 1325376010, cur_length = 1, counter = 1, test_done = True,
            test_from = [], test_to = [], train_from = ''hi'' @ [newline],
            train_to = ''None'' @ [newline], printed = []\<rparr>"
  by (simp_all add: export_step_def read_sql_def export_init_def pair_one_def
      write_page_def count_page_def Let_def py_str_def)

text \<open>
  C7, as stated, fails. The page holds one pair whose parent body has a line break; the
  exporter writes the body as it is, so the page puts two lines in the prompt file and one
  line in the reply file, and the second line of the prompt file has no line of the reply
  file to correspond to.
\<close>

theorem page_lines_misaligned:
  "read_sql [pair_break] (last_unix (export_init 1 [] [] [] [])) 1 = [pair_break]
   \<and> export_step 1 [pair_break] (export_init 1 [] [] [] [])
       = Inr \<lparr>last_unix = 1325376030, cur_length = 1, counter = 1, test_done = True,
              test_from = ''so'' @ [newline] @ ''long'' @ [newline],
              test_to = ''bye'' @ [newline], train_from = [], train_to = [], printed = []\<rparr>
   \<and> file_lines (''so'' @ [newline] @ ''long'' @ [newline]) = [''so'', ''long'']
   \<and> file_lines (''bye'' @ [newline]) = [''bye'']
   \<and> \<not> page_written [pair_break] [] (''so'' @ [newline] @ ''long'' @ [newline])
         [] (''bye'' @ [newline])"
  by (simp add: export_step_def read_sql_def export_init_def pair_break_def write_page_def
      count_page_def Let_def page_written_def file_lines_def newline_def)

text \<open>
  C7, amended. Every page that the exporter reads and whose rows hold a comment and only
  single-line bodies is written, and it goes to the prompt file and to the reply file in
  the same order and in equal number of lines: the \<open>n\<close>th line that the page appends to the
  prompt file is the parent body of the row whose comment is the \<open>n\<close>th line that the page
  appends to the reply file. The first page goes to the held-out files, every later page
  to the training files, and the files of the other split stay as they are.
\<close>

theorem page_lines_aligned:
  assumes "read_sql t (last_unix st) limit \<noteq> []"
    and "list_all one_line_pair (read_sql t (last_unix st) limit)"
  shows "\<exists>st'. export_step limit t st = Inr st' \<and>
          (if test_done st
           then page_written (read_sql t (last_unix st) limit)
                  (train_from st) (train_from st') (train_to st) (train_to st')
                \<and> test_from st' = test_from st \<and> test_to st' = test_to st
           else page_written (read_sql t (last_unix st) limit)
                  (test_from st) (test_from st') (test_to st) (test_to st')
                \<and> train_from st' = train_from st \<and> train_to st' = train_to st)"
proof -
  let ?df = "read_sql t (last_unix st) limit"
  from one_line_pairs [OF assms(2)] obtain ps cs where
    m: "map parent ?df = map Some ps" "map comment ?df = map Some cs"
    and l: "\<forall>b \<in> set ps. single_line b" "\<forall>b \<in> set cs. single_line b"
    by blast
  note pw = page_written_bodies [OF m l]
  show ?thesis
  proof (cases "test_done st")
    case True
    with assms(1) m have "export_step limit t st
        = Inr (count_page limit
            (st\<lparr>last_unix := unix (last ?df), cur_length := length ?df,
                train_from := train_from st @ concat (map (\<lambda>p. p @ [newline]) ps),
                train_to := train_to st @ concat (map (\<lambda>c. c @ [newline]) cs)\<rparr>))"
      by (simp add: export_step_def Let_def write_page_def write_contents_Some
          write_str_contents_Some)
    with True pw show ?thesis by simp
  next
    case False
    with assms(1) m have "export_step limit t st
        = Inr (count_page limit
            (st\<lparr>last_unix := unix (last ?df), cur_length := length ?df,
                test_from := test_from st @ concat (map (\<lambda>p. p @ [newline]) ps),
                test_to := test_to st @ concat (map (\<lambda>c. c @ [newline]) cs),
                test_done := True\<rparr>))"
      by (simp add: export_step_def Let_def write_page_def write_contents_Some)
    with False pw show ?thesis by simp
  qed
qed

theorem page_lines_aligned_witness:
  "read_sql [pair_two, stored_hi, pair_one] (last_unix (export_init 1 [] [] [] [])) 1 = [pair_one]
   \<and> list_all one_line_pair [pair_one]
   \<and> export_step 1 [pair_two, stored_hi, pair_one] (export_init 1 [] [] [] []) = Inr export_page_one
   \<and> page_written [pair_one] [] (''hi'' @ [newline]) [] (''hey there'' @ [newline])
   \<and> read_sql [pair_two, stored_hi, pair_one] (last_unix export_page_one) 1 = [pair_two]
   \<and> list_all one_line_pair [pair_two]
   \<and> export_step 1 [pair_two, stored_hi, pair_one] export_page_one = Inr export_page_two
   \<and> page_written [pair_two] [] (''hey there'' @ [newline]) [] (''good to see you'' @ [newline])"
proof -
  note r1 = read_sql_page_one and r2 = read_sql_page_two
  have n1: "read_sql [pair_two, stored_hi, pair_one] (last_unix (export_init 1 [] [] [] [])) 1 \<noteq> []"
    by (simp only: r1) simp
  have n2: "read_sql [pair_two, stored_hi, pair_one] (last_unix export_page_one) 1 \<noteq> []"
    by (simp only: r2) simp
  have o1: "list_all one_line_pair
              (read_sql [pair_two, stored_hi, pair_one] (last_unix (export_init 1 [] [] [] [])) 1)"
    by (simp only: r1) (simp add: one_line_pair_scenario)
  have o2: "list_all one_line_pair
              (read_sql [pair_two, stored_hi, pair_one] (last_unix export_page_one) 1)"
    by (simp only: r2) (simp add: one_line_pair_scenario)
  from page_lines_aligned [OF n1 o1]
  have 1: "page_written [pair_one] [] (''hi'' @ [newline]) [] (''hey there'' @ [newline])"
    unfolding r1 export_step_page_one by (simp add: export_init_def export_page_one_def)
  from page_lines_aligned [OF n2 o2]
  have 2: "page_written [pair_two] [] (''hey there'' @ [newline]) [] (''good to see you'' @ [newline])"
    unfolding r2 export_step_page_two by (simp add: export_page_one_def export_page_two_def)
  from 1 2 r1 r2 export_step_page_one export_step_page_two one_line_pair_scenario show ?thesis
    by simp
qed

text \<open>
  A pass through the loop body raises \<open>IndexError\<close> exactly when its page is empty, and
  nothing else unless a comment of the held-out page is NULL.
\<close>

lemma read_sql_parents: "\<exists>ps. map parent (read_sql t lu limit) = map Some ps"
proof -
  have "\<exists>ps. map parent df = map Some ps" if "\<forall>r \<in> set df. parent r \<noteq> None" for df :: "row list"
    using that
  proof (induction df)
    case Nil
    then show ?case by simp
  next
    case (Cons r df)
    then obtain p ps where "parent r = Some p" "map parent df = map Some ps" by auto
    then have "map parent (r # df) = map Some (p # ps)" by simp
    then show ?case by (rule exI [of _ "p # ps"])
  qed
  moreover have "\<forall>r \<in> set (read_sql t lu limit). parent r \<noteq> None"
    unfolding read_sql_def by (auto dest: in_set_takeD)
  ultimately show ?thesis by blast
qed

lemma write_contents_Inl:
  "write_contents cs f = Inl e \<Longrightarrow> e = TypeError \<and> None \<in> set cs"
  by (induction cs f rule: write_contents.induct) auto

lemma export_step_raises:
  assumes "export_step limit t st = Inl e"
  shows "(e = IndexError \<and> read_sql t (last_unix st) limit = [])
       \<or> (e = TypeError \<and> \<not> test_done st
          \<and> None \<in> set (map comment (read_sql t (last_unix st) limit)))"
proof (cases "read_sql t (last_unix st) limit = []")
  case True
  with assms show ?thesis by (auto simp: export_step_def)
next
  case False
  obtain ps where ps: "map parent (read_sql t (last_unix st) limit) = map Some ps"
    using read_sql_parents by blast
  from assms False show ?thesis
    by (auto simp: export_step_def Let_def write_page_def ps write_contents_Some
        split: if_splits sum.splits dest: write_contents_Inl)
qed

lemma export_step_empty:
  "read_sql t (last_unix st) limit = [] \<Longrightarrow> export_step limit t st = Inl IndexError"
  by (simp add: export_step_def)

text \<open>
  C4 fails on the code. An empty page makes \<open>df.tail(1)['unix'].values[0]\<close> raise
  \<open>IndexError\<close> before the length of the page is looked at: so the export raises on an empty
  table and on a table without qualifying rows, and, shown here with a page size of 2, on
  a table whose qualifying rows fill the last page exactly.
\<close>

theorem export_empty_page_raises:
  "export_corpus [] f1 f2 f3 f4 = Inl IndexError
   \<and> export_corpus [stored_hi] f1 f2 f3 f4 = Inl IndexError
   \<and> export_loop 2 [pair_two, stored_hi, pair_one] (export_init 2 f1 f2 f3 f4) = Inl IndexError"
proof -
  have a: "export_corpus [] f1 f2 f3 f4 = Inl IndexError"
    by (simp add: export_corpus_def export_init_def export_loop.simps export_step_def read_sql_def)
  have b: "export_corpus [stored_hi] f1 f2 f3 f4 = Inl IndexError"
    by (simp add: export_corpus_def export_init_def export_loop.simps export_step_def read_sql_def
        stored_hi_def)
  have r1: "read_sql [pair_two, stored_hi, pair_one] 0 2 = [pair_one, pair_two]"
    by (simp add: read_sql_def pair_one_def pair_two_def stored_hi_def)
  have r2: "read_sql [pair_two, stored_hi, pair_one] 1325376020 2 = []"
    by (simp add: read_sql_def pair_one_def pair_two_def stored_hi_def)
  have s1: "export_step 2 [pair_two, stored_hi, pair_one] (export_init 2 f1 f2 f3 f4)
          = Inr \<lparr>last_unix = 1325376020, cur_length = 2, counter = 1, test_done = True,
                 test_from = f1 @ ''hi'' @ [newline] @ ''hey there'' @ [newline],
                 test_to = f2 @ ''hey there'' @ [newline] @ ''good to see you'' @ [newline],
                 train_from = f3, train_to = f4, printed = []\<rparr>"
    apply (simp add: export_step_def r1 export_init_def Let_def)
    apply (simp add: write_page_def count_page_def pair_one_def pair_two_def)
    done
  have c: "export_loop 2 [pair_two, stored_hi, pair_one] (export_init 2 f1 f2 f3 f4) = Inl IndexError"
    apply (subst export_loop.simps)
    apply (simp add: s1)
    apply (simp add: export_init_def)
    apply (subst export_loop.simps)
    apply (simp add: export_step_def r2)
    done
  from a b c show ?thesis by blast
qed

end
